theory Spec2Isabelle
  imports Main "HOL-Library.Char_ord" "HOL-Library.List_Lexorder" "HOL-Library.Sublist"
begin

section \<open>Data model of the control execution tree\<close>

text \<open>
  The structs of \<^verbatim>\<open>control/controlexecute/result_group.go\<close>, and of the packages it
  uses, as records and datatypes. Pointers to structs become the values themselves.
\<close>

text \<open>
  Go's \<^verbatim>\<open>int\<close> (on the 64-bit platforms the program is built for) and \<^verbatim>\<open>int64\<close> are
  integers in the int64 range, and their arithmetic wraps around. They are \<open>int\<close>
  here, and every arithmetic result is brought back into the range by \<open>wrap64\<close>, as
  the machine does.
\<close>

definition in_int64 :: "int \<Rightarrow> bool" where
  "in_int64 x = (- (2 ^ 63) \<le> x \<and> x < 2 ^ 63)"

definition wrap64 :: "int \<Rightarrow> int" where
  "wrap64 x = (x + 2 ^ 63) mod 2 ^ 64 - 2 ^ 63"

text \<open>
  Modelled from the spec: \<^verbatim>\<open>controlstatus.StatusSummary\<close>, whose declaration is not
  among the source files: "a fixed-shape counter {ok, alarm, info, skip, error}". The five
  fields are the ones \<^verbatim>\<open>updateSummary\<close> and \<^verbatim>\<open>updateSeverityCounts\<close> add up, Go
  \<^verbatim>\<open>int\<close>s. A summary is a value of the type when its five counters are in the int64
  range.
\<close>

record StatusSummary =
  Alarm :: int
  Ok :: int
  Info :: int
  Skip :: int
  Error :: int

definition zero_summary :: StatusSummary where
  "zero_summary = \<lparr>Alarm = 0, Ok = 0, Info = 0, Skip = 0, Error = 0\<rparr>"

definition valid_summary :: "StatusSummary \<Rightarrow> bool" where
  "valid_summary s =
     (in_int64 (Alarm s) \<and> in_int64 (Ok s) \<and> in_int64 (Info s) \<and> in_int64 (Skip s)
      \<and> in_int64 (Error s))"

text \<open>
  The part of a \<^verbatim>\<open>modconfig.ModTreeItem\<close> that \<^verbatim>\<open>result_group.go\<close> reads through the
  interface: \<^verbatim>\<open>Name()\<close>, \<^verbatim>\<open>GetTitle()\<close>, \<^verbatim>\<open>GetDescription()\<close>, \<^verbatim>\<open>GetTags()\<close> and the name of
  \<^verbatim>\<open>GetMod()\<close> (\<open>None\<close> when \<^verbatim>\<open>GetMod()\<close> is nil). \<open>ItemSeverity\<close> is the severity a
  control declares, the empty string when it declares none.
\<close>

record ItemInfo =
  Name :: string
  ItemTitle :: string
  ItemDescription :: string
  ItemTags :: "(string \<times> string) list"
  ModName :: "string option"
  ItemSeverity :: string

text \<open>
  A tree item is a benchmark, a control, or an item of any other type (a mod, a
  dashboard): the two type switches of the source tell exactly these three apart.
\<close>

datatype ModTreeItem =
    BenchmarkItem ItemInfo "ModTreeItem list"
  | ControlItem ItemInfo
  | OtherItem ItemInfo "ModTreeItem list"

fun info :: "ModTreeItem \<Rightarrow> ItemInfo" where
  "info (BenchmarkItem i cs) = i"
| "info (ControlItem i) = i"
| "info (OtherItem i cs) = i"

fun GetChildren :: "ModTreeItem \<Rightarrow> ModTreeItem list" where
  "GetChildren (BenchmarkItem i cs) = cs"
| "GetChildren (ControlItem i) = []"
| "GetChildren (OtherItem i cs) = cs"

datatype ControlRunStatus =
  ControlRunReady | ControlRunStarted | ControlRunComplete | ControlRunError

text \<open>
  Modelled from the spec: the \<^verbatim>\<open>ControlRun\<close> struct (\<^verbatim>\<open>control_run.go\<close> is not among
  the source files): "reference to its control definition, status, StatusSummary for
  its own rows, ..., duration, error (absent unless execution failed)". \<open>RunSummary\<close> is
  the run's \<^verbatim>\<open>Summary\<close> field, \<open>RunError\<close> its \<^verbatim>\<open>runError\<close>.
\<close>

record ControlRun =
  Control :: ItemInfo
  RunStatus :: ControlRunStatus
  RunSummary :: StatusSummary
  RunError :: "string option"

text \<open>\<^verbatim>\<open>GroupSummary\<close>: the overall status and the per-severity map.\<close>

record GroupSummary =
  Status :: StatusSummary
  Severity :: "string \<rightharpoonup> StatusSummary"

definition NewGroupSummary :: GroupSummary where
  "NewGroupSummary = \<lparr>Status = zero_summary, Severity = Map.empty\<rparr>"

text \<open>
  \<^verbatim>\<open>ResultGroup\<close>. The fields other than the child groups are the record \<open>GroupData\<close>;
  \<open>Groups\<close> holds the child groups themselves, in order. \<open>GroupSeverity\<close> is the
  field \<^verbatim>\<open>ResultGroup.Severity\<close>, a map of its own, distinct from \<^verbatim>\<open>Summary.Severity\<close>.
  \<^verbatim>\<open>Duration\<close> is an int64 count of nanoseconds, kept as an \<open>int\<close> in the int64 range.
  The \<^verbatim>\<open>Parent\<close> pointer is not a field here: a group is addressed by the child indices
  that lead to it from the root (see \<open>addr\<close> below), and its parent is the address
  one index shorter. \<^verbatim>\<open>updateLock\<close> is the lock log of the execution state below.
\<close>

record GroupData =
  GroupId :: string
  Title :: string
  Description :: string
  Tags :: "(string \<times> string) list"
  Summary :: GroupSummary
  ControlRuns :: "ControlRun list"
  GroupSeverity :: "string \<rightharpoonup> StatusSummary"
  Duration :: int
  DimensionKeys :: "string list"

datatype ResultGroup = ResultGroup (data: GroupData) (Groups: "ResultGroup list")

definition RootResultGroupName :: string where
  "RootResultGroupName = ''root_result_group''"

section \<open>Lookups\<close>

text \<open>
  A nil result is \<open>None\<close>. The three lookups are loops with an early return; each
  is a recursion over the list it ranges over.
\<close>

fun GetGroupByName_loop :: "ResultGroup list \<Rightarrow> string \<Rightarrow> ResultGroup option" where
  "GetGroupByName_loop [] name = None"
| "GetGroupByName_loop (grp # rest) name =
     (if GroupId (data grp) = name then Some grp else GetGroupByName_loop rest name)"

definition GetGroupByName :: "ResultGroup \<Rightarrow> string \<Rightarrow> ResultGroup option" where
  "GetGroupByName r name = GetGroupByName_loop (Groups r) name"

fun GetChildGroupByName :: "ResultGroup \<Rightarrow> string \<Rightarrow> ResultGroup option"
  and GetChildGroupByName_loop :: "ResultGroup list \<Rightarrow> string \<Rightarrow> ResultGroup option" where
  "GetChildGroupByName (ResultGroup d gs) name = GetChildGroupByName_loop gs name"
| "GetChildGroupByName_loop [] name = None"
| "GetChildGroupByName_loop (grp # rest) name =
     (if GroupId (data grp) = name then Some grp
      else (case GetChildGroupByName grp name of
              Some child \<Rightarrow> Some child
            | None \<Rightarrow> GetChildGroupByName_loop rest name))"

fun GetControlRunByName_loop :: "ControlRun list \<Rightarrow> string \<Rightarrow> ControlRun option" where
  "GetControlRunByName_loop [] name = None"
| "GetControlRunByName_loop (run # rest) name =
     (if Name (Control run) = name then Some run else GetControlRunByName_loop rest name)"

definition GetControlRunByName :: "ResultGroup \<Rightarrow> string \<Rightarrow> ControlRun option" where
  "GetControlRunByName r name = GetControlRunByName_loop (ControlRuns (data r)) name"

fun ControlRunCount :: "ResultGroup \<Rightarrow> nat" where
  "ControlRunCount (ResultGroup d gs) =
     fold (\<lambda>g count. count + ControlRunCount g) gs (length (ControlRuns d))"

text \<open>
  The words of the specification for the recursive lookup: the descendant groups of a
  group in depth-first pre-order over the ordered child groups (a group before its own
  descendants, and those before its next sibling).
\<close>

fun preorder :: "ResultGroup \<Rightarrow> ResultGroup list" where
  "preorder (ResultGroup d gs) = concat (map (\<lambda>g. g # preorder g) gs)"

subsection \<open>The lookups are first-match searches\<close>

lemma GetGroupByName_loop_find:
  "GetGroupByName_loop gs name = find (\<lambda>g. GroupId (data g) = name) gs"
  by (induction gs) simp_all

lemma GetControlRunByName_loop_find:
  "GetControlRunByName_loop rs name = find (\<lambda>run. Name (Control run) = name) rs"
  by (induction rs) simp_all

lemma find_append_cases:
  "find P (xs @ ys) = (case find P xs of Some x \<Rightarrow> Some x | None \<Rightarrow> find P ys)"
  by (induction xs) simp_all

lemma GetChildGroupByName_preorder:
  "GetChildGroupByName r name = find (\<lambda>g. GroupId (data g) = name) (preorder r)"
  "GetChildGroupByName_loop gs name =
     find (\<lambda>g. GroupId (data g) = name) (concat (map (\<lambda>g. g # preorder g) gs))"
  by (induction r name and gs name rule: GetChildGroupByName_GetChildGroupByName_loop.induct)
     (simp_all add: find_append_cases split: option.splits)

text \<open>
  C10. The three lookups are total functions of the group and the name, with no state
  to change: each returns the first match of its search order, and \<open>None\<close> (nil)
  exactly when nothing in that order matches. \<^verbatim>\<open>GetGroupByName\<close> searches the immediate
  child groups by \<^verbatim>\<open>GroupId\<close>, \<^verbatim>\<open>GetChildGroupByName\<close> the descendants in depth-first
  pre-order, \<^verbatim>\<open>GetControlRunByName\<close> the direct control runs by control name.
\<close>

theorem lookups_first_match:
  "GetGroupByName r name = find (\<lambda>g. GroupId (data g) = name) (Groups r)
   \<and> GetChildGroupByName r name = find (\<lambda>g. GroupId (data g) = name) (preorder r)
   \<and> GetControlRunByName r name
       = find (\<lambda>run. Name (Control run) = name) (ControlRuns (data r))
   \<and> (GetGroupByName r name = None
        \<longleftrightarrow> name \<notin> set (map (\<lambda>g. GroupId (data g)) (Groups r)))
   \<and> (GetChildGroupByName r name = None
        \<longleftrightarrow> name \<notin> set (map (\<lambda>g. GroupId (data g)) (preorder r)))
   \<and> (GetControlRunByName r name = None
        \<longleftrightarrow> name \<notin> set (map (\<lambda>run. Name (Control run)) (ControlRuns (data r))))"
  by (auto simp: GetGroupByName_def GetControlRunByName_def GetGroupByName_loop_find
      GetControlRunByName_loop_find GetChildGroupByName_preorder find_None_iff)

section \<open>Building the tree\<close>

text \<open>
  Modelled from the spec: \<^verbatim>\<open>modconfig.UnqualifiedResourceName\<close>, which is not among the
  source files: "an unqualified short name is used". A full name is
  \<^verbatim>\<open>mod.type.name\<close> (as \<^verbatim>\<open>NewDashboard\<close> builds it), the unqualified name is
  \<^verbatim>\<open>type.name\<close>; a name that does not have three parts is left as it is.
\<close>

fun split_dots :: "string \<Rightarrow> string list" where
  "split_dots [] = [[]]"
| "split_dots (c # cs) =
     (if c = CHR ''.'' then [] # split_dots cs
      else (case split_dots cs of p # ps \<Rightarrow> (c # p) # ps | [] \<Rightarrow> [[c]]))"

definition UnqualifiedResourceName :: "string \<Rightarrow> string" where
  "UnqualifiedResourceName fullName =
     (case split_dots fullName of
        [m, t, n] \<Rightarrow> t @ ''.'' @ n
      | _ \<Rightarrow> fullName)"

text \<open>
  Modelled from the spec: \<^verbatim>\<open>NewControlRun\<close> and \<^verbatim>\<open>ExecutionTree.AddControl\<close>, which are
  not among the source files: "if it is a control, attach a new ControlRun directly
  under the current group", the run being "created during tree construction with status
  ready".
\<close>

definition NewControlRun :: "ItemInfo \<Rightarrow> ControlRun" where
  "NewControlRun control =
     \<lparr>Control = control, RunStatus = ControlRunReady, RunSummary = zero_summary,
      RunError = None\<rparr>"

definition AddControl :: "ItemInfo \<Rightarrow> ResultGroup \<Rightarrow> ResultGroup" where
  "AddControl control grp =
     ResultGroup ((data grp)\<lparr>ControlRuns := ControlRuns (data grp) @ [NewControlRun control]\<rparr>)
       (Groups grp)"

text \<open>\<^verbatim>\<open>group.Groups = append(group.Groups, itemGroup)\<close>\<close>

definition append_group :: "ResultGroup \<Rightarrow> ResultGroup \<Rightarrow> ResultGroup" where
  "append_group grp itemGroup = ResultGroup (data grp) (Groups grp @ [itemGroup])"

text \<open>\<^verbatim>\<open>mod := treeItem.GetMod(); mod != nil && mod.Name() == executionTree.workspace.Mod.Name()\<close>\<close>

definition is_workspace_mod :: "string \<Rightarrow> ItemInfo \<Rightarrow> bool" where
  "is_workspace_mod workspaceMod i =
     (case ModName i of None \<Rightarrow> False | Some m \<Rightarrow> m = workspaceMod)"

lemma size_child_less:
  "c \<in> set (GetChildren treeItem) \<Longrightarrow> size c < size treeItem"
  by (cases treeItem) (auto simp: less_Suc_eq_le dest: size_list_estimation'[where f = size, OF _ order_refl])

text \<open>
  \<^verbatim>\<open>NewResultGroup\<close>. \<open>workspaceMod\<close> is \<^verbatim>\<open>executionTree.workspace.Mod.Name()\<close>. The
  local variable \<^verbatim>\<open>groupId\<close> is computed as in the source, and as in the source the
  struct literal takes \<^verbatim>\<open>treeItem.Name()\<close> for its \<^verbatim>\<open>GroupId\<close>. The loop over the
  children is the fold; a child that is neither a benchmark nor a control is passed over.
\<close>

function NewResultGroup :: "string \<Rightarrow> ModTreeItem \<Rightarrow> ResultGroup" where
  "NewResultGroup workspaceMod treeItem =
     (let groupId = Name (info treeItem);
          groupId = (if is_workspace_mod workspaceMod (info treeItem)
                     then UnqualifiedResourceName groupId else groupId);
          grp = ResultGroup
                  \<lparr>GroupId = Name (info treeItem),
                   Title = ItemTitle (info treeItem),
                   Description = ItemDescription (info treeItem),
                   Tags = ItemTags (info treeItem),
                   Summary = NewGroupSummary,
                   ControlRuns = [],
                   GroupSeverity = Map.empty,
                   Duration = 0,
                   DimensionKeys = []\<rparr> []
      in fold (\<lambda>c grp.
                (case c of
                   BenchmarkItem bi bcs \<Rightarrow>
                     (let benchmarkGroup = NewResultGroup workspaceMod c
                      in if ControlRunCount benchmarkGroup > 0
                         then append_group grp benchmarkGroup else grp)
                 | ControlItem control \<Rightarrow> AddControl control grp
                 | OtherItem oi ocs \<Rightarrow> grp))
              (GetChildren treeItem) grp)"
  by pat_completeness auto
termination
  by (relation "measure (\<lambda>(w, t). size t)") (auto dest: size_child_less)

text \<open>\<^verbatim>\<open>NewRootResultGroup\<close>: the root, then one step per root item.\<close>

definition NewRootResultGroup :: "string \<Rightarrow> ModTreeItem list \<Rightarrow> ResultGroup" where
  "NewRootResultGroup workspaceMod rootItems =
     (let root = ResultGroup
                   \<lparr>GroupId = RootResultGroupName,
                    Title = [],
                    Description = [],
                    Tags = [],
                    Summary = NewGroupSummary,
                    ControlRuns = [],
                    GroupSeverity = Map.empty,
                    Duration = 0,
                    DimensionKeys = []\<rparr> []
      in fold (\<lambda>item root.
                (case item of
                   ControlItem control \<Rightarrow> AddControl control root
                 | _ \<Rightarrow> (let itemGroup = NewResultGroup workspaceMod item
                         in append_group root itemGroup)))
              rootItems root)"

subsection \<open>What the built tree looks like\<close>

text \<open>A property that each step of a loop keeps holds after the loop.\<close>

lemma fold_preserves:
  assumes "P init"
    and "\<And>item acc. item \<in> set items \<Longrightarrow> P acc \<Longrightarrow> P (f item acc)"
  shows "P (fold f items init)"
  using assms by (induction items arbitrary: init) auto

lemma preorder_Groups: "preorder g = concat (map (\<lambda>c. c # preorder c) (Groups g))"
  by (cases g) simp

lemma AddControl_sel [simp]:
  "GroupId (data (AddControl c g)) = GroupId (data g)"
  "Groups (AddControl c g) = Groups g"
  by (simp_all add: AddControl_def)

lemma append_group_sel [simp]:
  "data (append_group g b) = data g"
  "Groups (append_group g b) = Groups g @ [b]"
  by (simp_all add: append_group_def)

text \<open>
  Whatever the mod of the item, the identifier of the group is the full name of the item:
  the unqualified name that the function computes is never stored.
\<close>

lemma NewResultGroup_GroupId:
  "GroupId (data (NewResultGroup workspaceMod treeItem)) = Name (info treeItem)"
  by (subst NewResultGroup.simps, unfold Let_def)
     (rule fold_preserves, auto split: ModTreeItem.splits)

text \<open>The pruning law in the words of the specification: no descendant group is empty.\<close>

definition no_empty_groups :: "ResultGroup \<Rightarrow> bool" where
  "no_empty_groups g = list_all (\<lambda>c. ControlRunCount c > 0) (preorder g)"

text \<open>
  Below a group built by \<^verbatim>\<open>NewResultGroup\<close> the law holds: a benchmark is attached only
  when it has a control run.
\<close>

lemma NewResultGroup_prunes: "no_empty_groups (NewResultGroup workspaceMod treeItem)"
proof (induction workspaceMod treeItem rule: NewResultGroup.induct)
  case (1 ws treeItem)
  show ?case
    apply (subst NewResultGroup.simps, unfold Let_def)
    apply (rule fold_preserves)
     apply (simp add: no_empty_groups_def)
    subgoal for c s
      using "1.IH"[of _ _ _ c]
      by (cases c)
        (auto simp: no_empty_groups_def preorder_Groups[of "append_group _ _"]
          preorder_Groups[of "AddControl _ _"] preorder_Groups[symmetric] list_all_iff)
    done
qed

text \<open>
  C3. The pruning law at the top level, on the scenario of the specification: the root
  items are a benchmark \<open>b1\<close> with the controls \<open>c1\<close> and \<open>c2\<close>, and a benchmark
  \<open>b2\<close> with no children. \<^verbatim>\<open>NewRootResultGroup\<close> attaches both: \<open>b2\<close>, whose
  transitive control count is zero, is the second child of the root.
\<close>

theorem NewRootResultGroup_attaches_empty_benchmark:
  "map (\<lambda>g. (GroupId (data g), ControlRunCount g))
     (Groups (NewRootResultGroup ''local''
        [BenchmarkItem
           \<lparr>Name = ''local.benchmark.b1'', ItemTitle = [], ItemDescription = [],
            ItemTags = [], ModName = Some ''local'', ItemSeverity = []\<rparr>
           [ControlItem
              \<lparr>Name = ''local.control.c1'', ItemTitle = [], ItemDescription = [],
               ItemTags = [], ModName = Some ''local'', ItemSeverity = []\<rparr>,
            ControlItem
              \<lparr>Name = ''local.control.c2'', ItemTitle = [], ItemDescription = [],
               ItemTags = [], ModName = Some ''local'', ItemSeverity = []\<rparr>],
         BenchmarkItem
           \<lparr>Name = ''local.benchmark.b2'', ItemTitle = [], ItemDescription = [],
            ItemTags = [], ModName = Some ''local'', ItemSeverity = []\<rparr>
           []]))
   = [(''local.benchmark.b1'', 2), (''local.benchmark.b2'', 0)]"
  by (simp add: NewRootResultGroup_def AddControl_def append_group_def)

text \<open>
  C4. The identifier of a group whose item belongs to the workspace mod: for the
  benchmark \<open>local.benchmark.b1\<close> of the workspace mod \<open>local\<close> the unqualified name
  is \<open>benchmark.b1\<close>, and the \<^verbatim>\<open>GroupId\<close> that \<^verbatim>\<open>NewResultGroup\<close> stores is the fully
  qualified \<open>local.benchmark.b1\<close>.
\<close>

theorem NewResultGroup_GroupId_of_workspace_mod:
  "is_workspace_mod ''local''
     \<lparr>Name = ''local.benchmark.b1'', ItemTitle = [], ItemDescription = [],
      ItemTags = [], ModName = Some ''local'', ItemSeverity = []\<rparr>
   \<and> UnqualifiedResourceName ''local.benchmark.b1'' = ''benchmark.b1''
   \<and> GroupId (data (NewResultGroup ''local''
         (BenchmarkItem
            \<lparr>Name = ''local.benchmark.b1'', ItemTitle = [], ItemDescription = [],
             ItemTags = [], ModName = Some ''local'', ItemSeverity = []\<rparr> [])))
       = ''local.benchmark.b1''"
  by (simp add: UnqualifiedResourceName_def is_workspace_mod_def)

section \<open>Upward aggregation\<close>

text \<open>
  The tree is fixed once it is built, and the aggregation only follows \<^verbatim>\<open>Parent\<close>
  pointers. A group is addressed by the indices, from the root down, of the child groups
  that lead to it: the root is \<open>[]\<close>, its second child group is \<open>[1]\<close>. The
  \<^verbatim>\<open>Parent\<close> of a group is nil for the root and otherwise the address without its last
  index.
\<close>

type_synonym addr = "nat list"

definition Parent :: "addr \<Rightarrow> addr option" where
  "Parent r = (if r = [] then None else Some (butlast r))"

text \<open>The subtree at an address, and an update of the fields of the group at an address.\<close>

fun group_at :: "addr \<Rightarrow> ResultGroup \<Rightarrow> ResultGroup option" where
  "group_at [] g = Some g"
| "group_at (i # p) g =
     (if i < length (Groups g) then group_at p (Groups g ! i) else None)"

fun update_path :: "addr \<Rightarrow> (GroupData \<Rightarrow> GroupData) \<Rightarrow> ResultGroup \<Rightarrow> ResultGroup" where
  "update_path [] f g = ResultGroup (f (data g)) (Groups g)"
| "update_path (i # p) f g =
     (if i < length (Groups g)
      then ResultGroup (data g) ((Groups g)[i := update_path p f (Groups g ! i)])
      else g)"

definition data_at :: "addr \<Rightarrow> ResultGroup \<Rightarrow> GroupData option" where
  "data_at r t = map_option data (group_at r t)"

text \<open>
  The state of an execution: the tree, and the log of the \<^verbatim>\<open>updateLock\<close> operations of the
  task, in the order they happen. \<^verbatim>\<open>defer r.updateLock.Unlock()\<close> runs when the function
  returns, so the unlock is the last step of each function below.
\<close>

datatype lock_event = Lock addr | Unlock addr

record exec_state =
  tree :: ResultGroup
  lock_log :: "lock_event list"

definition updateLock_Lock :: "addr \<Rightarrow> exec_state \<Rightarrow> exec_state" where
  "updateLock_Lock r st = st\<lparr>lock_log := lock_log st @ [Lock r]\<rparr>"

definition updateLock_Unlock :: "addr \<Rightarrow> exec_state \<Rightarrow> exec_state" where
  "updateLock_Unlock r st = st\<lparr>lock_log := lock_log st @ [Unlock r]\<rparr>"

definition update_group :: "addr \<Rightarrow> (GroupData \<Rightarrow> GroupData) \<Rightarrow> exec_state \<Rightarrow> exec_state" where
  "update_group r f st = st\<lparr>tree := update_path r f (tree st)\<rparr>"

lemma Parent_shorter: "Parent r = Some p \<Longrightarrow> length p < length r"
  by (auto simp: Parent_def split: if_splits)

subsection \<open>The four updates\<close>

function updateSummary :: "addr \<Rightarrow> StatusSummary \<Rightarrow> exec_state \<Rightarrow> exec_state" where
  "updateSummary r summary st =
     (let st = updateLock_Lock r st;
          st = update_group r (\<lambda>d. d\<lparr>Summary := (Summary d)\<lparr>Status := (Status (Summary d))
                 \<lparr>Skip := wrap64 (Skip (Status (Summary d)) + Skip summary),
                  Alarm := wrap64 (Alarm (Status (Summary d)) + Alarm summary),
                  Info := wrap64 (Info (Status (Summary d)) + Info summary),
                  Ok := wrap64 (Ok (Status (Summary d)) + Ok summary),
                  Error := wrap64 (Error (Status (Summary d)) + Error summary)\<rparr>\<rparr>\<rparr>) st;
          st = (case Parent r of
                  None \<Rightarrow> st
                | Some parent \<Rightarrow> updateSummary parent summary st)
      in updateLock_Unlock r st)"
  by pat_completeness auto
termination
  by (relation "measure (\<lambda>(r, s, st). length r)") (auto simp: Parent_shorter)

text \<open>
  \<^verbatim>\<open>updateSeverityCounts\<close> looks the severity up in \<^verbatim>\<open>r.Severity\<close> (\<open>GroupSeverity\<close>) and
  stores the sum in \<^verbatim>\<open>r.Summary.Severity\<close>, as the source does.
\<close>

function updateSeverityCounts ::
  "addr \<Rightarrow> string \<Rightarrow> StatusSummary \<Rightarrow> exec_state \<Rightarrow> exec_state" where
  "updateSeverityCounts r severity summary st =
     (let st = updateLock_Lock r st;
          st = update_group r (\<lambda>d.
                 (let val = (case GroupSeverity d severity of
                               None \<Rightarrow> zero_summary
                             | Some v \<Rightarrow> v);
                      val = val\<lparr>Alarm := wrap64 (Alarm val + Alarm summary),
                                Error := wrap64 (Error val + Error summary),
                                Info := wrap64 (Info val + Info summary),
                                Ok := wrap64 (Ok val + Ok summary),
                                Skip := wrap64 (Skip val + Skip summary)\<rparr>
                  in d\<lparr>Summary := (Summary d)\<lparr>Severity := (Severity (Summary d))(severity \<mapsto> val)\<rparr>\<rparr>)) st;
          st = (case Parent r of
                  None \<Rightarrow> st
                | Some parent \<Rightarrow> updateSeverityCounts parent severity summary st)
      in updateLock_Unlock r st)"
  by pat_completeness auto
termination
  by (relation "measure (\<lambda>(r, sev, s, st). length r)") (auto simp: Parent_shorter)

text \<open>
  \<^verbatim>\<open>time.Duration\<close> is an int64 count of nanoseconds. It is an \<open>int\<close> here, and every
  arithmetic result is brought back into the int64 range by \<open>wrap64\<close>, as the machine
  does. \<^verbatim>\<open>Duration.Round\<close> and \<^verbatim>\<open>lessThanHalf\<close> are those of Go's standard library
  (package \<^verbatim>\<open>time\<close>), with Go's remainder, whose sign is that of the dividend.
\<close>

definition minDuration :: int where
  "minDuration = - (2 ^ 63)"

definition maxDuration :: int where
  "maxDuration = 2 ^ 63 - 1"

definition Millisecond :: int where
  "Millisecond = 1000000"

definition go_rem :: "int \<Rightarrow> int \<Rightarrow> int" where
  "go_rem a b = sgn a * (\<bar>a\<bar> mod \<bar>b\<bar>)"

definition lessThanHalf :: "int \<Rightarrow> int \<Rightarrow> bool" where
  "lessThanHalf x y = ((x mod 2 ^ 64 + x mod 2 ^ 64) mod 2 ^ 64 < y mod 2 ^ 64)"

definition Round :: "int \<Rightarrow> int \<Rightarrow> int" where
  "Round d m =
     (if m \<le> 0 then d
      else
        (let r = go_rem d m in
         if d < 0 then
           (let r = wrap64 (- r) in
            if lessThanHalf r m then wrap64 (d + r)
            else (let d1 = wrap64 (wrap64 (d - m) + r) in
                  if d1 < d then d1 else minDuration))
         else if lessThanHalf r m then wrap64 (d - r)
         else (let d1 = wrap64 (wrap64 (d + m) - r) in
               if d1 > d then d1 else maxDuration)))"

function addDuration :: "addr \<Rightarrow> int \<Rightarrow> exec_state \<Rightarrow> exec_state" where
  "addDuration r d st =
     (let st = updateLock_Lock r st;
          st = update_group r
                 (\<lambda>g. g\<lparr>Duration := wrap64 (Duration g + Round d Millisecond)\<rparr>) st;
          st = (case Parent r of
                  None \<Rightarrow> st
                | Some parent \<Rightarrow> addDuration parent (Round d Millisecond) st)
      in updateLock_Unlock r st)"
  by pat_completeness auto
termination
  by (relation "measure (\<lambda>(r, d, st). length r)") (auto simp: Parent_shorter)

text \<open>
  Modelled from the spec: \<^verbatim>\<open>utils.StringSliceDistinct\<close>, which is not among the source
  files: "deduplicate". \<^verbatim>\<open>sort.Strings\<close> sorts in increasing order of Go's string
  comparison, the lexicographic order of the bytes, which is the order of \<open>string\<close>.
\<close>

definition StringSliceDistinct :: "string list \<Rightarrow> string list" where
  "StringSliceDistinct xs = remdups xs"

definition sort_Strings :: "string list \<Rightarrow> string list" where
  "sort_Strings xs = sort xs"

function addDimensionKeys :: "addr \<Rightarrow> string list \<Rightarrow> exec_state \<Rightarrow> exec_state" where
  "addDimensionKeys r keys st =
     (let st = updateLock_Lock r st;
          st = update_group r (\<lambda>g. g\<lparr>DimensionKeys := DimensionKeys g @ keys\<rparr>) st;
          st = (case Parent r of
                  None \<Rightarrow> st
                | Some parent \<Rightarrow> addDimensionKeys parent keys st);
          st = update_group r
                 (\<lambda>g. g\<lparr>DimensionKeys := StringSliceDistinct (DimensionKeys g)\<rparr>) st;
          st = update_group r (\<lambda>g. g\<lparr>DimensionKeys := sort_Strings (DimensionKeys g)\<rparr>) st
      in updateLock_Unlock r st)"
  by pat_completeness auto
termination
  by (relation "measure (\<lambda>(r, ks, st). length r)") (auto simp: Parent_shorter)

declare updateSummary.simps [simp del] updateSeverityCounts.simps [simp del]
  addDuration.simps [simp del] addDimensionKeys.simps [simp del]

section \<open>What one update does to the tree and to the locks\<close>

text \<open>Field-wise addition of status summaries, as Go's \<^verbatim>\<open>+=\<close> on each counter does it.\<close>

definition add_summary :: "StatusSummary \<Rightarrow> StatusSummary \<Rightarrow> StatusSummary" where
  "add_summary a b =
     \<lparr>Alarm = wrap64 (Alarm a + Alarm b), Ok = wrap64 (Ok a + Ok b),
      Info = wrap64 (Info a + Info b), Skip = wrap64 (Skip a + Skip b),
      Error = wrap64 (Error a + Error b)\<rparr>"

definition add_status :: "StatusSummary \<Rightarrow> GroupData \<Rightarrow> GroupData" where
  "add_status s d = d\<lparr>Summary := (Summary d)\<lparr>Status := add_summary (Status (Summary d)) s\<rparr>\<rparr>"

text \<open>
  \<open>climb f r\<close> changes the fields of the group at \<open>r\<close> and of each of its ancestors
  by \<open>f\<close>, the group at \<open>r\<close> first and the root last.
\<close>

definition climb :: "(GroupData \<Rightarrow> GroupData) \<Rightarrow> addr \<Rightarrow> ResultGroup \<Rightarrow> ResultGroup" where
  "climb f r t = fold (\<lambda>a. update_path a f) (rev (prefixes r)) t"

text \<open>
  The lock operations of one update that starts at \<open>r\<close>: the locks of \<open>r\<close> and of its
  ancestors taken going up, then released coming back down.
\<close>

definition lock_trace :: "addr \<Rightarrow> lock_event list" where
  "lock_trace r = map Lock (rev (prefixes r)) @ map Unlock (prefixes r)"

subsection \<open>Updates at addresses\<close>

lemma Groups_update_path_length [simp]:
  "length (Groups (update_path p f t)) = length (Groups t)"
  by (cases p) auto

lemma data_at_update_path:
  "data_at q (update_path p f t)
     = (if q = p then map_option f (data_at q t) else data_at q t)"
proof (induction p arbitrary: q t)
  case Nil
  then show ?case by (cases q) (auto simp: data_at_def)
next
  case (Cons i p)
  show ?case
  proof (cases q)
    case Nil
    then show ?thesis by (auto simp: data_at_def)
  next
    case (Cons j q')
    then show ?thesis
      using Cons.IH[of q' "Groups t ! i"]
      by (auto simp: data_at_def nth_list_update)
  qed
qed

lemma update_path_commute:
  "p \<noteq> q \<Longrightarrow> update_path p f (update_path q g t) = update_path q g (update_path p f t)"
proof (induction p arbitrary: q t)
  case Nil
  then show ?case by (cases q) auto
next
  case (Cons i p)
  show ?case
  proof (cases q)
    case Nil
    then show ?thesis by auto
  next
    case (Cons j q')
    show ?thesis
    proof (cases "i = j")
      case True
      with Cons Cons.prems have "p \<noteq> q'" by simp
      from Cons.IH[OF this] True Cons show ?thesis by simp
    next
      case False
      with Cons show ?thesis by (simp add: list_update_swap)
    qed
  qed
qed

lemma update_path_fuse:
  "update_path p f (update_path p g t) = update_path p (f \<circ> g) t"
  by (induction p arbitrary: t) auto

lemma climb_Nil: "climb f [] t = update_path [] f t"
  by (simp add: climb_def)

lemma climb_snoc: "climb f (p @ [i]) t = climb f p (update_path (p @ [i]) f t)"
  by (simp add: climb_def)

lemma update_path_fold_commute:
  "p \<notin> set ps \<Longrightarrow>
   update_path p g (fold (\<lambda>a. update_path a f) ps t)
     = fold (\<lambda>a. update_path a f) ps (update_path p g t)"
  by (induction ps arbitrary: t) (auto simp: update_path_commute)

lemma update_path_climb_commute:
  "update_path (p @ [i]) g (climb f p t) = climb f p (update_path (p @ [i]) g t)"
  unfolding climb_def by (rule update_path_fold_commute) (auto simp: in_set_prefixes)

lemma data_at_fold_update:
  "distinct ps \<Longrightarrow>
   data_at q (fold (\<lambda>a. update_path a f) ps t)
     = (if q \<in> set ps then map_option f (data_at q t) else data_at q t)"
  by (induction ps arbitrary: t) (auto simp: data_at_update_path)

lemma data_at_climb:
  "data_at q (climb f r t)
     = (if prefix q r then map_option f (data_at q t) else data_at q t)"
  unfolding climb_def by (subst data_at_fold_update) (auto simp: in_set_prefixes distinct_prefixes)

lemma lock_trace_snoc:
  "lock_trace (p @ [i]) = Lock (p @ [i]) # lock_trace p @ [Unlock (p @ [i])]"
  by (simp add: lock_trace_def)

lemma Parent_simps [simp]: "Parent [] = None" "Parent (p @ [i]) = Some p"
  by (simp_all add: Parent_def)

lemma state_sel [simp]:
  "tree (updateLock_Lock r st) = tree st"
  "tree (updateLock_Unlock r st) = tree st"
  "tree (update_group r f st) = update_path r f (tree st)"
  "lock_log (updateLock_Lock r st) = lock_log st @ [Lock r]"
  "lock_log (updateLock_Unlock r st) = lock_log st @ [Unlock r]"
  "lock_log (update_group r f st) = lock_log st"
  by (simp_all add: updateLock_Lock_def updateLock_Unlock_def update_group_def)

subsection \<open>The summary update\<close>

lemma updateSummary_effect:
  "tree (updateSummary r s st) = climb (add_status s) r (tree st)
   \<and> lock_log (updateSummary r s st) = lock_log st @ lock_trace r"
proof (induction r arbitrary: st rule: rev_induct)
  case Nil
  have "(\<lambda>d. d\<lparr>Summary := (Summary d)\<lparr>Status := (Status (Summary d))
                 \<lparr>Skip := wrap64 (Skip (Status (Summary d)) + Skip s),
                  Alarm := wrap64 (Alarm (Status (Summary d)) + Alarm s),
                  Info := wrap64 (Info (Status (Summary d)) + Info s),
                  Ok := wrap64 (Ok (Status (Summary d)) + Ok s),
                  Error := wrap64 (Error (Status (Summary d)) + Error s)\<rparr>\<rparr>\<rparr>) = add_status s"
    by (simp add: fun_eq_iff add_status_def add_summary_def)
  then show ?case
    by (simp add: updateSummary.simps[of "[]"] climb_Nil lock_trace_def)
next
  case (snoc i p)
  have "(\<lambda>d. d\<lparr>Summary := (Summary d)\<lparr>Status := (Status (Summary d))
                 \<lparr>Skip := wrap64 (Skip (Status (Summary d)) + Skip s),
                  Alarm := wrap64 (Alarm (Status (Summary d)) + Alarm s),
                  Info := wrap64 (Info (Status (Summary d)) + Info s),
                  Ok := wrap64 (Ok (Status (Summary d)) + Ok s),
                  Error := wrap64 (Error (Status (Summary d)) + Error s)\<rparr>\<rparr>\<rparr>) = add_status s"
    by (simp add: fun_eq_iff add_status_def add_summary_def)
  then show ?case
    by (simp add: updateSummary.simps[of "p @ [i]"] snoc.IH climb_snoc lock_trace_snoc)
qed

subsection \<open>The other three updates\<close>

text \<open>What each of them does to the fields of one group.\<close>

definition store_severity :: "string \<Rightarrow> StatusSummary \<Rightarrow> GroupData \<Rightarrow> GroupData" where
  "store_severity severity s d =
     d\<lparr>Summary := (Summary d)\<lparr>Severity := (Severity (Summary d))
        (severity \<mapsto> add_summary
           (case GroupSeverity d severity of None \<Rightarrow> zero_summary | Some v \<Rightarrow> v) s)\<rparr>\<rparr>"

definition add_duration :: "int \<Rightarrow> GroupData \<Rightarrow> GroupData" where
  "add_duration x g = g\<lparr>Duration := wrap64 (Duration g + x)\<rparr>"

definition add_keys :: "string list \<Rightarrow> GroupData \<Rightarrow> GroupData" where
  "add_keys ks g = g\<lparr>DimensionKeys := sort_Strings (StringSliceDistinct (DimensionKeys g @ ks))\<rparr>"

subsection \<open>Rounding a duration to the millisecond\<close>

lemma wrap64_id: "in_int64 x \<Longrightarrow> wrap64 x = x"
  by (simp add: in_int64_def wrap64_def)

lemma wrap64_0_1: "wrap64 0 = 0" "wrap64 1 = 1"
  by (simp_all add: wrap64_def)

lemma wrap64_add_left: "wrap64 (wrap64 a + b) = wrap64 (a + b)"
proof -
  have "(wrap64 a + b + 2 ^ 63) mod 2 ^ 64 = ((a + 2 ^ 63) mod 2 ^ 64 + b) mod 2 ^ 64"
    by (simp add: wrap64_def algebra_simps)
  also have "\<dots> = (a + 2 ^ 63 + b) mod 2 ^ 64"
    by (simp add: mod_add_left_eq)
  finally show ?thesis
    by (simp add: wrap64_def algebra_simps)
qed

lemma wrap64_high: "2 ^ 63 \<le> x \<Longrightarrow> x < 2 ^ 64 + 2 ^ 63 \<Longrightarrow> wrap64 x = x - 2 ^ 64"
proof -
  assume a: "2 ^ 63 \<le> x" "x < 2 ^ 64 + 2 ^ 63"
  have "(x + 2 ^ 63) mod 2 ^ 64 = (x + 2 ^ 63 - 2 ^ 64) mod 2 ^ 64"
    by (metis mod_diff_right_eq mod_self diff_zero)
  also have "\<dots> = x + 2 ^ 63 - 2 ^ 64"
    using a by (intro mod_pos_pos_trivial) auto
  finally show ?thesis by (simp add: wrap64_def)
qed

lemma wrap64_low: "- (2 ^ 64) - 2 ^ 63 \<le> x \<Longrightarrow> x < - (2 ^ 63) \<Longrightarrow> wrap64 x = x + 2 ^ 64"
proof -
  assume a: "- (2 ^ 64) - 2 ^ 63 \<le> x" "x < - (2 ^ 63)"
  have "(x + 2 ^ 63) mod 2 ^ 64 = (x + 2 ^ 63 + 2 ^ 64) mod 2 ^ 64"
    by (metis mod_add_self2)
  also have "\<dots> = x + 2 ^ 63 + 2 ^ 64"
    using a by (intro mod_pos_pos_trivial) auto
  finally show ?thesis by (simp add: wrap64_def)
qed

lemma lessThanHalf_small:
  "0 \<le> r \<Longrightarrow> r < 1000000 \<Longrightarrow> lessThanHalf r 1000000 = (2 * r < 1000000)"
  by (simp add: lessThanHalf_def)

text \<open>Round on a non-negative duration, with the remainder named.\<close>

lemma Round_nonneg_unfold:
  assumes "0 \<le> d" "d < 2 ^ 63" "r = d mod 1000000"
  shows "Round d Millisecond =
     (if 2 * r < 1000000 then d - r
      else if d + 1000000 - r < 2 ^ 63 then d + 1000000 - r else maxDuration)"
proof -
  have r: "0 \<le> r" "r < 1000000" "r \<le> d"
    using assms by (auto intro: zmod_le_nonneg_dividend)
  have gr: "go_rem d 1000000 = r"
    using assms by (cases "d = 0") (auto simp: go_rem_def)
  have w1: "wrap64 (d - r) = d - r"
    using r assms by (intro wrap64_id) (auto simp: in_int64_def)
  have w2: "wrap64 (wrap64 (d + 1000000) - r) = wrap64 (d + 1000000 - r)"
    using wrap64_add_left[of "d + 1000000" "- r"] by simp
  have step: "Round d Millisecond =
      (if 2 * r < 1000000 then d - r
       else if wrap64 (d + 1000000 - r) > d then wrap64 (d + 1000000 - r) else maxDuration)"
    using assms(1) r(1,2) by (simp add: Round_def Millisecond_def Let_def gr w1 w2 lessThanHalf_small)
  show ?thesis
  proof (cases "d + 1000000 - r < 2 ^ 63")
    case True
    then have "wrap64 (d + 1000000 - r) = d + 1000000 - r"
      using r assms by (intro wrap64_id) (auto simp: in_int64_def)
    then show ?thesis
      using r True by (simp add: step)
  next
    case False
    then have "wrap64 (d + 1000000 - r) = d + 1000000 - r - 2 ^ 64"
      using r assms by (intro wrap64_high) auto
    then show ?thesis
      using r False by (simp add: step)
  qed
qed

lemma Round_neg_unfold:
  assumes "d < 0" "- (2 ^ 63) \<le> d" "r = (- d) mod 1000000"
  shows "Round d Millisecond =
     (if 2 * r < 1000000 then d + r
      else if - (2 ^ 63) \<le> d - 1000000 + r then d - 1000000 + r else minDuration)"
proof -
  have r: "0 \<le> r" "r < 1000000" "r \<le> - d"
    using assms by (auto intro: zmod_le_nonneg_dividend)
  have gr: "go_rem d 1000000 = - r"
    using assms by (auto simp: go_rem_def)
  have w0: "wrap64 r = r"
    using r by (simp add: wrap64_id in_int64_def)
  have w1: "wrap64 (d + r) = d + r"
    using r assms by (intro wrap64_id) (auto simp: in_int64_def)
  have w2: "wrap64 (wrap64 (d - 1000000) + r) = wrap64 (d - 1000000 + r)"
    using wrap64_add_left[of "d - 1000000" "r"] by simp
  have step: "Round d Millisecond =
      (if 2 * r < 1000000 then d + r
       else if wrap64 (d - 1000000 + r) < d then wrap64 (d - 1000000 + r) else minDuration)"
    using assms(1) r(1,2) by (simp add: Round_def Millisecond_def Let_def gr w0 w1 w2 lessThanHalf_small)
  show ?thesis
  proof (cases "- (2 ^ 63) \<le> d - 1000000 + r")
    case True
    then have "wrap64 (d - 1000000 + r) = d - 1000000 + r"
      using r assms by (intro wrap64_id) (auto simp: in_int64_def)
    then show ?thesis
      using r True by (simp add: step)
  next
    case False
    then have "wrap64 (d - 1000000 + r) = d - 1000000 + r + 2 ^ 64"
      using r assms by (intro wrap64_low) auto
    then show ?thesis
      using r assms False by (simp add: step)
  qed
qed


lemma mult_mod_drop: "(d - d mod 1000000) mod 1000000 = (0::int)"
  by (simp add: mod_diff_right_eq)

lemma Round_range: "in_int64 d \<Longrightarrow> in_int64 (Round d Millisecond)"
proof (cases "d < 0")
  case True
  assume "in_int64 d"
  then show ?thesis
    using True Round_neg_unfold[of d "(- d) mod 1000000"]
    by (auto simp: in_int64_def minDuration_def)
next
  case False
  assume "in_int64 d"
  then show ?thesis
    using False Round_nonneg_unfold[of d "d mod 1000000"]
      zmod_le_nonneg_dividend[of d 1000000]
    by (auto simp: in_int64_def maxDuration_def)
qed

lemma Round_maxDuration: "Round maxDuration Millisecond = maxDuration"
  using Round_nonneg_unfold[of maxDuration "maxDuration mod 1000000"]
  by (simp add: maxDuration_def)

lemma Round_minDuration: "Round minDuration Millisecond = minDuration"
  using Round_neg_unfold[of minDuration "(- minDuration) mod 1000000"]
  by (simp add: minDuration_def)

lemma Round_multiple:
  assumes "in_int64 x" "x mod 1000000 = 0"
  shows "Round x Millisecond = x"
proof (cases "x < 0")
  case True
  have "(- x) mod 1000000 = 0"
    using assms(2) by (simp add: zmod_zminus1_eq_if)
  then show ?thesis
    using True assms Round_neg_unfold[of x 0] by (simp add: in_int64_def)
next
  case False
  then show ?thesis
    using assms Round_nonneg_unfold[of x 0] by (simp add: in_int64_def)
qed

lemma Round_idem:
  assumes "in_int64 d"
  shows "Round (Round d Millisecond) Millisecond = Round d Millisecond"
proof (cases "d < 0")
  case True
  define r where "r = (- d) mod 1000000"
  have u: "Round d Millisecond =
     (if 2 * r < 1000000 then d + r
      else if - (2 ^ 63) \<le> d - 1000000 + r then d - 1000000 + r else minDuration)"
    using True assms by (intro Round_neg_unfold) (auto simp: in_int64_def r_def)
  have m1: "(d + r) mod 1000000 = 0"
    unfolding r_def by (simp add: mod_add_right_eq)
  have "(d - 1000000 + r) mod 1000000 = (d + r - 1000000) mod 1000000"
    by (simp add: algebra_simps)
  also have "\<dots> = (d + r) mod 1000000"
    by (rule minus_mod_self2)
  finally have m2: "(d - 1000000 + r) mod 1000000 = 0"
    using m1 by simp
  show ?thesis
    using Round_range[OF assms] m1 m2
    by (auto simp: u Round_minDuration intro!: Round_multiple)
next
  case False
  define r where "r = d mod 1000000"
  have u: "Round d Millisecond =
     (if 2 * r < 1000000 then d - r
      else if d + 1000000 - r < 2 ^ 63 then d + 1000000 - r else maxDuration)"
    using False assms by (intro Round_nonneg_unfold) (auto simp: in_int64_def r_def)
  have m1: "(d - r) mod 1000000 = 0"
    unfolding r_def by (rule mult_mod_drop)
  have "(d + 1000000 - r) mod 1000000 = (d - r + 1000000) mod 1000000"
    by (simp add: algebra_simps)
  also have "\<dots> = (d - r) mod 1000000"
    by (rule mod_add_self2)
  finally have m2: "(d + 1000000 - r) mod 1000000 = 0"
    using m1 by simp
  show ?thesis
    using Round_range[OF assms] m1 m2
    by (auto simp: u Round_maxDuration intro!: Round_multiple)
qed

subsection \<open>Each update changes the group and all its ancestors, and nothing else\<close>

lemma updateSeverityCounts_effect:
  "tree (updateSeverityCounts r severity s st) = climb (store_severity severity s) r (tree st)
   \<and> lock_log (updateSeverityCounts r severity s st) = lock_log st @ lock_trace r"
proof (induction r arbitrary: st rule: rev_induct)
  case Nil
  have "(\<lambda>d. (let val = (case GroupSeverity d severity of
                               None \<Rightarrow> zero_summary
                             | Some v \<Rightarrow> v);
                      val = val\<lparr>Alarm := wrap64 (Alarm val + Alarm s),
                                Error := wrap64 (Error val + Error s),
                                Info := wrap64 (Info val + Info s),
                                Ok := wrap64 (Ok val + Ok s),
                                Skip := wrap64 (Skip val + Skip s)\<rparr>
                  in d\<lparr>Summary := (Summary d)\<lparr>Severity := (Severity (Summary d))(severity \<mapsto> val)\<rparr>\<rparr>))
        = store_severity severity s"
    by (simp add: fun_eq_iff store_severity_def add_summary_def Let_def)
  then show ?case
    by (simp add: updateSeverityCounts.simps[of "[]"] climb_Nil lock_trace_def)
next
  case (snoc i p)
  have "(\<lambda>d. (let val = (case GroupSeverity d severity of
                               None \<Rightarrow> zero_summary
                             | Some v \<Rightarrow> v);
                      val = val\<lparr>Alarm := wrap64 (Alarm val + Alarm s),
                                Error := wrap64 (Error val + Error s),
                                Info := wrap64 (Info val + Info s),
                                Ok := wrap64 (Ok val + Ok s),
                                Skip := wrap64 (Skip val + Skip s)\<rparr>
                  in d\<lparr>Summary := (Summary d)\<lparr>Severity := (Severity (Summary d))(severity \<mapsto> val)\<rparr>\<rparr>))
        = store_severity severity s"
    by (simp add: fun_eq_iff store_severity_def add_summary_def Let_def)
  then show ?case
    by (simp add: updateSeverityCounts.simps[of "p @ [i]"] snoc.IH climb_snoc lock_trace_snoc)
qed

lemma addDuration_effect:
  "in_int64 d \<Longrightarrow>
   tree (addDuration r d st) = climb (add_duration (Round d Millisecond)) r (tree st)
   \<and> lock_log (addDuration r d st) = lock_log st @ lock_trace r"
proof (induction r arbitrary: st d rule: rev_induct)
  case Nil
  have "(\<lambda>g. g\<lparr>Duration := wrap64 (Duration g + Round d Millisecond)\<rparr>)
        = add_duration (Round d Millisecond)"
    by (simp add: fun_eq_iff add_duration_def)
  then show ?case
    by (simp add: addDuration.simps[of "[]"] climb_Nil lock_trace_def)
next
  case (snoc i p)
  have f: "(\<lambda>g. g\<lparr>Duration := wrap64 (Duration g + Round d Millisecond)\<rparr>)
        = add_duration (Round d Millisecond)"
    by (simp add: fun_eq_iff add_duration_def)
  have r: "in_int64 (Round d Millisecond)"
    using snoc.prems by (rule Round_range)
  show ?case
    using snoc.IH[OF r] snoc.prems
    by (simp add: addDuration.simps[of "p @ [i]"] f climb_snoc lock_trace_snoc Round_idem)
qed

lemma addDimensionKeys_effect:
  "tree (addDimensionKeys r ks st) = climb (add_keys ks) r (tree st)
   \<and> lock_log (addDimensionKeys r ks st) = lock_log st @ lock_trace r"
proof (induction r arbitrary: st rule: rev_induct)
  case Nil
  show ?case
    by (simp add: addDimensionKeys.simps[of "[]"] climb_Nil lock_trace_def add_keys_def)
next
  case (snoc i p)
  have f: "(\<lambda>g. g\<lparr>DimensionKeys := sort_Strings (DimensionKeys g)\<rparr>)
         \<circ> ((\<lambda>g. g\<lparr>DimensionKeys := StringSliceDistinct (DimensionKeys g)\<rparr>)
         \<circ> (\<lambda>g. g\<lparr>DimensionKeys := DimensionKeys g @ ks\<rparr>)) = add_keys ks"
    by (simp add: fun_eq_iff add_keys_def)
  show ?case
    by (simp add: addDimensionKeys.simps[of "p @ [i]"] snoc.IH update_path_climb_commute
        update_path_fuse f climb_snoc lock_trace_snoc)
qed

section \<open>A worked tree\<close>

text \<open>
  The root, with one benchmark \<open>local.benchmark.b1\<close> (address \<open>[0]\<close>) that holds the
  controls \<open>c1\<close> and \<open>c2\<close>, both of severity \<open>high\<close>; no lock operation has
  happened yet.
\<close>

definition example_state :: exec_state where
  "example_state =
     \<lparr>tree = NewRootResultGroup ''local''
        [BenchmarkItem
           \<lparr>Name = ''local.benchmark.b1'', ItemTitle = [], ItemDescription = [],
            ItemTags = [], ModName = Some ''local'', ItemSeverity = []\<rparr>
           [ControlItem
              \<lparr>Name = ''local.control.c1'', ItemTitle = [], ItemDescription = [],
               ItemTags = [], ModName = Some ''local'', ItemSeverity = ''high''\<rparr>,
            ControlItem
              \<lparr>Name = ''local.control.c2'', ItemTitle = [], ItemDescription = [],
               ItemTags = [], ModName = Some ''local'', ItemSeverity = ''high''\<rparr>]],
      lock_log = []\<rparr>"

section \<open>Severity counts\<close>

lemma updateSeverityCounts_data:
  "data_at q (tree (updateSeverityCounts r severity s st))
     = (if prefix q r then map_option (store_severity severity s) (data_at q (tree st))
        else data_at q (tree st))"
  by (simp add: updateSeverityCounts_effect data_at_climb)

text \<open>
  The update never writes \<^verbatim>\<open>r.Severity\<close>, the map it reads. While that map has no entry
  for the severity, as in every group that \<^verbatim>\<open>NewResultGroup\<close> builds, a second update
  stores its own summary over the first one.
\<close>

lemma store_severity_GroupSeverity [simp]:
  "GroupSeverity (store_severity severity s d) = GroupSeverity d"
  by (simp add: store_severity_def)

lemma store_severity_overwrites:
  "GroupSeverity d severity = None \<Longrightarrow> valid_summary s \<Longrightarrow>
   Severity (Summary (store_severity severity s (store_severity severity s' d))) severity = Some s"
  by (simp add: store_severity_def add_summary_def zero_summary_def valid_summary_def wrap64_id)

text \<open>
  C2. Two runs of severity \<open>high\<close> under the benchmark at \<open>[0]\<close> each finish with one
  alarm row, so \<^verbatim>\<open>updateSeverityCounts\<close> is called twice on that group. Afterwards
  \<^verbatim>\<open>Summary.Severity["high"]\<close> of the root and of the benchmark count one alarm, not
  the two of the field-wise sum.
\<close>

theorem updateSeverityCounts_second_run_replaces:
  "map_option (\<lambda>d. Severity (Summary d) ''high'')
     (data_at []
        (tree (updateSeverityCounts [0] ''high'' \<lparr>Alarm = 1, Ok = 0, Info = 0, Skip = 0, Error = 0\<rparr>
                (updateSeverityCounts [0] ''high'' \<lparr>Alarm = 1, Ok = 0, Info = 0, Skip = 0, Error = 0\<rparr>
                   example_state))))
     = Some (Some \<lparr>Alarm = 1, Ok = 0, Info = 0, Skip = 0, Error = 0\<rparr>)
   \<and> map_option (\<lambda>d. Severity (Summary d) ''high'')
     (data_at [0]
        (tree (updateSeverityCounts [0] ''high'' \<lparr>Alarm = 1, Ok = 0, Info = 0, Skip = 0, Error = 0\<rparr>
                (updateSeverityCounts [0] ''high'' \<lparr>Alarm = 1, Ok = 0, Info = 0, Skip = 0, Error = 0\<rparr>
                   example_state))))
     = Some (Some \<lparr>Alarm = 1, Ok = 0, Info = 0, Skip = 0, Error = 0\<rparr>)"
  by (simp add: updateSeverityCounts.simps Parent_def example_state_def NewRootResultGroup_def
      AddControl_def append_group_def data_at_def update_group_def updateLock_Lock_def
      updateLock_Unlock_def NewControlRun_def NewGroupSummary_def zero_summary_def Let_def
      wrap64_0_1)

section \<open>Locks held during an update\<close>

text \<open>
  \<open>peak_from h es\<close> is the largest number of locks the task holds at any moment while
  it performs the lock operations \<open>es\<close>, starting with the locks \<open>h\<close> in hand;
  \<open>held_after h es\<close> are the locks it holds at the end.
\<close>

fun peak_from :: "addr list \<Rightarrow> lock_event list \<Rightarrow> nat" where
  "peak_from h [] = length h"
| "peak_from h (Lock a # es) = max (length h) (peak_from (a # h) es)"
| "peak_from h (Unlock a # es) = max (length h) (peak_from (remove1 a h) es)"

definition peak_held :: "lock_event list \<Rightarrow> nat" where
  "peak_held es = peak_from [] es"

fun held_after :: "addr list \<Rightarrow> lock_event list \<Rightarrow> addr list" where
  "held_after h [] = h"
| "held_after h (Lock a # es) = held_after (a # h) es"
| "held_after h (Unlock a # es) = held_after (remove1 a h) es"

lemma peak_from_lock_trace:
  "peak_from h (lock_trace r @ es) = max (Suc (length h + length r)) (peak_from h es)"
proof (induction r arbitrary: h es rule: rev_induct)
  case Nil
  show ?case by (simp add: lock_trace_def)
next
  case (snoc i p)
  show ?case
    using snoc.IH[of "(p @ [i]) # h" "Unlock (p @ [i]) # es"]
    by (simp add: lock_trace_snoc)
qed

lemma held_after_lock_trace:
  "held_after h (lock_trace r @ es) = held_after h es"
proof (induction r arbitrary: h es rule: rev_induct)
  case Nil
  show ?case by (simp add: lock_trace_def)
next
  case (snoc i p)
  show ?case
    using snoc.IH[of "(p @ [i]) # h" "Unlock (p @ [i]) # es"]
    by (simp add: lock_trace_snoc)
qed

lemma addDuration_locks:
  "lock_log (addDuration r d st) = lock_log st @ lock_trace r"
proof (induction r arbitrary: st d rule: rev_induct)
  case Nil
  show ?case by (simp add: addDuration.simps[of "[]"] lock_trace_def)
next
  case (snoc i p)
  show ?case
    by (simp add: addDuration.simps[of "p @ [i]"] snoc.IH lock_trace_snoc)
qed

text \<open>
  C9, as stated, fails: a summary update that starts at the benchmark \<open>[0]\<close> locks the
  benchmark, then locks the root while it still holds the benchmark's lock, and holds
  two group locks at that moment.
\<close>

theorem updateSummary_holds_two_locks:
  "lock_log (updateSummary [0] \<lparr>Alarm = 1, Ok = 0, Info = 0, Skip = 0, Error = 0\<rparr> example_state)
     = [Lock [0], Lock [], Unlock [], Unlock [0]]
   \<and> peak_held (lock_log
        (updateSummary [0] \<lparr>Alarm = 1, Ok = 0, Info = 0, Skip = 0, Error = 0\<rparr> example_state)) = 2"
  by (simp add: updateSummary.simps Parent_def peak_held_def example_state_def
      updateLock_Lock_def updateLock_Unlock_def update_group_def Let_def)

text \<open>
  C9, amended. Each of the four updates that starts at a group \<open>r\<close> takes the lock of
  \<open>r\<close> and then of each ancestor in turn up to the root, and only then releases them,
  the root's first and that of \<open>r\<close> last: the unlock is deferred to the return of each
  call, so a call keeps its lock while it runs the parent's update. The locks taken are
  all different, the task holds as many as \<open>length r + 1\<close> of them at once (the depth of
  \<open>r\<close> plus one), and none when the update returns.
\<close>

theorem upward_locks_nest:
  "lock_log (updateSummary r summary st) = lock_log st @ lock_trace r
   \<and> lock_log (updateSeverityCounts r severity summary st) = lock_log st @ lock_trace r
   \<and> lock_log (addDuration r d st) = lock_log st @ lock_trace r
   \<and> lock_log (addDimensionKeys r keys st) = lock_log st @ lock_trace r
   \<and> lock_trace r = map Lock (rev (prefixes r)) @ map Unlock (prefixes r)
   \<and> distinct (prefixes r)
   \<and> peak_held (lock_trace r) = length r + 1
   \<and> held_after [] (lock_trace r) = []"
  using peak_from_lock_trace[of "[]" r "[]"] held_after_lock_trace[of "[]" r "[]"]
  by (simp add: updateSummary_effect updateSeverityCounts_effect addDuration_locks
      addDimensionKeys_effect peak_held_def distinct_prefixes) (simp add: lock_trace_def)

section \<open>Durations\<close>

lemma addDuration_data:
  "in_int64 d \<Longrightarrow>
   data_at q (tree (addDuration r d st))
     = (if prefix q r then map_option (add_duration (Round d Millisecond)) (data_at q (tree st))
        else data_at q (tree st))"
  by (simp add: addDuration_effect data_at_climb)

lemma addDuration_funpow_Duration:
  assumes "in_int64 d" "prefix q r" "data_at q (tree st) = Some g" "in_int64 (Duration g)"
  shows "\<exists>gn. data_at q (tree ((addDuration r d ^^ n) st)) = Some gn
           \<and> Duration gn = wrap64 (Duration g + int n * Round d Millisecond)"
proof (induction n)
  case 0
  show ?case using assms by (simp add: wrap64_id)
next
  case (Suc n)
  then obtain gn where gn: "data_at q (tree ((addDuration r d ^^ n) st)) = Some gn"
    "Duration gn = wrap64 (Duration g + int n * Round d Millisecond)"
    by blast
  have "wrap64 (wrap64 (Duration g + int n * Round d Millisecond) + Round d Millisecond)
          = wrap64 (Duration g + int n * Round d Millisecond + Round d Millisecond)"
    by (rule wrap64_add_left)
  also have "Duration g + int n * Round d Millisecond + Round d Millisecond
          = Duration g + int (Suc n) * Round d Millisecond"
    by (simp add: algebra_simps)
  finally show ?case
    using gn assms(1,2) by (simp add: addDuration_data add_duration_def)
qed

text \<open>
  C7, as stated, fails when the accumulated duration overflows. Two runs of the largest
  duration, which \<^verbatim>\<open>Round\<close> leaves as it is, under the benchmark \<open>[0]\<close> of the fresh
  worked tree leave the root with an accumulated duration of \<open>-2\<close> nanoseconds, which is
  less than twice the rounded duration.
\<close>

theorem accumulated_duration_wraps:
  "in_int64 maxDuration
   \<and> Round maxDuration Millisecond = maxDuration
   \<and> map_option Duration (data_at [] (tree example_state)) = Some 0
   \<and> map_option Duration
        (data_at [] (tree (addDuration [0] maxDuration (addDuration [0] maxDuration example_state))))
       = Some (- 2)
   \<and> \<not> (2 * Round maxDuration Millisecond \<le> - 2)"
proof -
  have m: "in_int64 maxDuration"
    by (simp add: in_int64_def maxDuration_def)
  have w: "wrap64 (wrap64 (0 + maxDuration) + maxDuration) = - 2"
    by (simp add: wrap64_def maxDuration_def)
  have d: "data_at [] (tree example_state) = Some (data (tree example_state))"
    "Duration (data (tree example_state)) = 0"
    by (simp_all add: data_at_def example_state_def NewRootResultGroup_def append_group_def)
  show ?thesis
    using m w d
    by (simp add: addDuration_data Round_maxDuration add_duration_def) (simp add: maxDuration_def)
qed

text \<open>
  C7, amended. For a run duration \<open>d\<close> (an int64), \<^verbatim>\<open>addDuration\<close> adds \<open>Round d Millisecond\<close> to
  the accumulated \<^verbatim>\<open>Duration\<close> of the group and of each of its ancestors \<open>q\<close>; the value
  it hands to the parent is \<open>Round d Millisecond\<close>, and rounding that value again, as the
  parent does, leaves it as it is. After \<open>n\<close> runs of the same duration the group has
  accumulated \<open>n\<close> times the rounded duration, in int64 arithmetic: the rounding comes
  before the sum. As long as that total fits the int64 range it is the exact total, and
  then a group that started from a non-negative duration holds no less than \<open>n\<close> times
  the rounded duration; beyond the range the total wraps around.
\<close>

theorem addDuration_rounds_before_summing:
  assumes "in_int64 d" and "prefix q r" and "data_at q (tree st) = Some g"
    and "in_int64 (Duration g)"
  shows "(\<exists>g1. data_at q (tree (addDuration r d st)) = Some g1
            \<and> Duration g1 = wrap64 (Duration g + Round d Millisecond))
    \<and> addDuration (p @ [i]) d st
         = updateLock_Unlock (p @ [i])
             (addDuration p (Round d Millisecond)
               (update_group (p @ [i]) (add_duration (Round d Millisecond))
                 (updateLock_Lock (p @ [i]) st)))
    \<and> Round (Round d Millisecond) Millisecond = Round d Millisecond
    \<and> (\<exists>gn. data_at q (tree ((addDuration r d ^^ n) st)) = Some gn
            \<and> Duration gn = wrap64 (Duration g + int n * Round d Millisecond)
            \<and> (in_int64 (Duration g + int n * Round d Millisecond)
                 \<longrightarrow> Duration gn = Duration g + int n * Round d Millisecond)
            \<and> (0 \<le> Duration g \<and> in_int64 (Duration g + int n * Round d Millisecond)
                 \<longrightarrow> int n * Round d Millisecond \<le> Duration gn))"
proof -
  have a: "\<exists>g1. data_at q (tree (addDuration r d st)) = Some g1
            \<and> Duration g1 = wrap64 (Duration g + Round d Millisecond)"
    using assms by (simp add: addDuration_data add_duration_def)
  have b: "addDuration (p @ [i]) d st
         = updateLock_Unlock (p @ [i])
             (addDuration p (Round d Millisecond)
               (update_group (p @ [i]) (add_duration (Round d Millisecond))
                 (updateLock_Lock (p @ [i]) st)))"
  proof -
    have "(\<lambda>g. g\<lparr>Duration := wrap64 (Duration g + Round d Millisecond)\<rparr>)
        = add_duration (Round d Millisecond)"
      by (simp add: fun_eq_iff add_duration_def)
    then show ?thesis
      by (simp add: addDuration.simps[of "p @ [i]"])
  qed
  have c: "Round (Round d Millisecond) Millisecond = Round d Millisecond"
    using assms(1) by (rule Round_idem)
  obtain gn where gn: "data_at q (tree ((addDuration r d ^^ n) st)) = Some gn"
      "Duration gn = wrap64 (Duration g + int n * Round d Millisecond)"
    using addDuration_funpow_Duration[OF assms] by blast
  have d: "in_int64 (Duration g + int n * Round d Millisecond)
             \<longrightarrow> Duration gn = Duration g + int n * Round d Millisecond"
    using gn(2) by (simp add: wrap64_id)
  from a b c gn d show ?thesis by auto
qed

text \<open>
  Three runs of 1.6 ms each under the benchmark \<open>[0]\<close>: each is rounded to 2 ms, and the
  root accumulates 6 ms (a run of 0.4 ms would be rounded to 0).
\<close>

theorem addDuration_rounds_before_summing_witness:
  "in_int64 1600000 \<and> prefix [] [0::nat]
   \<and> data_at [] (tree example_state) = Some (data (tree example_state))
   \<and> Duration (data (tree example_state)) = 0
   \<and> Round 1600000 Millisecond = 2000000
   \<and> Round 400000 Millisecond = 0
   \<and> (\<exists>gn. data_at [] (tree ((addDuration [0] 1600000 ^^ 3) example_state)) = Some gn
           \<and> Duration gn = 6000000)"
proof -
  have h: "in_int64 1600000" "prefix [] [0::nat]"
    "data_at [] (tree example_state) = Some (data (tree example_state))"
    "Duration (data (tree example_state)) = 0" "in_int64 (Duration (data (tree example_state)))"
    by (simp_all add: in_int64_def data_at_def example_state_def NewRootResultGroup_def
        append_group_def)
  have r: "Round 1600000 Millisecond = 2000000" "Round 400000 Millisecond = 0"
    by (simp_all add: Round_def Millisecond_def go_rem_def lessThanHalf_def wrap64_def Let_def)
  have w: "wrap64 6000000 = 6000000"
    by (simp add: wrap64_def)
  show ?thesis
    using addDuration_rounds_before_summing[OF h(1,2,3,5), where n = 3 and p = "[]" and i = 0]
      h r w
    by auto
qed

section \<open>Dimension keys\<close>

text \<open>
  A call of \<^verbatim>\<open>addDimensionKeys\<close> is the address of the group it is made on and the keys it
  passes. \<open>keys_under q evs\<close> are the keys that the calls \<open>evs\<close> made in the subtree of
  \<open>q\<close> (on \<open>q\<close> or on a descendant) contribute, and \<open>addDimensionKeys_all\<close> makes
  the calls one after the other.
\<close>

definition keys_under :: "addr \<Rightarrow> (addr \<times> string list) list \<Rightarrow> string list" where
  "keys_under q evs = concat (map snd (filter (\<lambda>e. prefix q (fst e)) evs))"

definition addDimensionKeys_all :: "(addr \<times> string list) list \<Rightarrow> exec_state \<Rightarrow> exec_state" where
  "addDimensionKeys_all evs st = fold (\<lambda>e. addDimensionKeys (fst e) (snd e)) evs st"

lemma addDimensionKeys_data:
  "data_at q (tree (addDimensionKeys r ks st))
     = (if prefix q r then map_option (add_keys ks) (data_at q (tree st))
        else data_at q (tree st))"
  by (simp add: addDimensionKeys_effect data_at_climb)

lemma sort_distinct_set:
  "sort_Strings (StringSliceDistinct xs) = sorted_list_of_set (set xs)"
  by (simp add: sort_Strings_def StringSliceDistinct_def sorted_list_of_set_sort_remdups)



lemma addDimensionKeys_all_keys:
  assumes "data_at q (tree st) = Some g0" "sorted (DimensionKeys g0)" "distinct (DimensionKeys g0)"
  shows "\<exists>g. data_at q (tree (addDimensionKeys_all evs st)) = Some g
           \<and> DimensionKeys g = sorted_list_of_set (set (DimensionKeys g0) \<union> set (keys_under q evs))"
  using assms
proof (induction evs arbitrary: st g0)
  case Nil
  then show ?case
    by (simp add: addDimensionKeys_all_def keys_under_def sorted_list_of_set.idem_if_sorted_distinct)
next
  case (Cons e evs)
  show ?case
  proof (cases "prefix q (fst e)")
    case True
    let ?g1 = "add_keys (snd e) g0"
    have d: "data_at q (tree (addDimensionKeys (fst e) (snd e) st)) = Some ?g1"
      using Cons.prems(1) True by (simp add: addDimensionKeys_data)
    have k: "DimensionKeys ?g1 = sorted_list_of_set (set (DimensionKeys g0) \<union> set (snd e))"
      by (simp add: add_keys_def sort_distinct_set)
    have "sorted (DimensionKeys ?g1)" "distinct (DimensionKeys ?g1)"
      unfolding k by simp_all
    from Cons.IH[OF d this] k True show ?thesis
      by (simp add: addDimensionKeys_all_def keys_under_def Un_assoc)
  next
    case False
    have d: "data_at q (tree (addDimensionKeys (fst e) (snd e) st)) = Some g0"
      using Cons.prems(1) False by (simp add: addDimensionKeys_data)
    from Cons.IH[OF d Cons.prems(2,3)] False show ?thesis
      by (simp add: addDimensionKeys_all_def keys_under_def)
  qed
qed

text \<open>
  C8. A call of \<^verbatim>\<open>addDimensionKeys\<close> on a group with a parent appends the keys to the
  group's list, then calls the parent with the same keys, and only then removes the
  duplicates from its own list and sorts it. So the list of the group and of each
  ancestor becomes the sorted, duplicate-free list of its old keys and the keys of the
  call, the keys having reached each of them once and as passed. After any sequence of
  calls on a tree whose lists were empty, the \<^verbatim>\<open>DimensionKeys\<close> of every group \<open>q\<close> is
  the sorted, duplicate-free list of the keys contributed in its subtree.
\<close>

theorem addDimensionKeys_propagates_raw_keys:
  "addDimensionKeys (p @ [i]) keys st
     = updateLock_Unlock (p @ [i])
         (update_group (p @ [i]) (\<lambda>g. g\<lparr>DimensionKeys := sort_Strings (DimensionKeys g)\<rparr>)
           (update_group (p @ [i])
              (\<lambda>g. g\<lparr>DimensionKeys := StringSliceDistinct (DimensionKeys g)\<rparr>)
             (addDimensionKeys p keys
               (update_group (p @ [i]) (\<lambda>g. g\<lparr>DimensionKeys := DimensionKeys g @ keys\<rparr>)
                 (updateLock_Lock (p @ [i]) st)))))
   \<and> data_at q (tree (addDimensionKeys r keys st))
       = (if prefix q r
          then map_option
                 (\<lambda>g. g\<lparr>DimensionKeys :=
                         sort_Strings (StringSliceDistinct (DimensionKeys g @ keys))\<rparr>)
                 (data_at q (tree st))
          else data_at q (tree st))
   \<and> (data_at q (tree st) = Some g0 \<and> DimensionKeys g0 = [] \<longrightarrow>
        (\<exists>g. data_at q (tree (addDimensionKeys_all evs st)) = Some g
           \<and> DimensionKeys g = sort_Strings (StringSliceDistinct (keys_under q evs))
           \<and> sorted (DimensionKeys g) \<and> distinct (DimensionKeys g)
           \<and> set (DimensionKeys g) = set (keys_under q evs)))"
proof -
  have a: "addDimensionKeys (p @ [i]) keys st
     = updateLock_Unlock (p @ [i])
         (update_group (p @ [i]) (\<lambda>g. g\<lparr>DimensionKeys := sort_Strings (DimensionKeys g)\<rparr>)
           (update_group (p @ [i])
              (\<lambda>g. g\<lparr>DimensionKeys := StringSliceDistinct (DimensionKeys g)\<rparr>)
             (addDimensionKeys p keys
               (update_group (p @ [i]) (\<lambda>g. g\<lparr>DimensionKeys := DimensionKeys g @ keys\<rparr>)
                 (updateLock_Lock (p @ [i]) st)))))"
    by (simp add: addDimensionKeys.simps[of "p @ [i]"])
  have "add_keys keys
         = (\<lambda>g. g\<lparr>DimensionKeys := sort_Strings (StringSliceDistinct (DimensionKeys g @ keys))\<rparr>)"
    by (simp add: fun_eq_iff add_keys_def)
  then have b: "data_at q (tree (addDimensionKeys r keys st))
       = (if prefix q r
          then map_option
                 (\<lambda>g. g\<lparr>DimensionKeys :=
                         sort_Strings (StringSliceDistinct (DimensionKeys g @ keys))\<rparr>)
                 (data_at q (tree st))
          else data_at q (tree st))"
    using addDimensionKeys_data[of q r keys st] by simp
  have c: "\<exists>g. data_at q (tree (addDimensionKeys_all evs st)) = Some g
           \<and> DimensionKeys g = sort_Strings (StringSliceDistinct (keys_under q evs))
           \<and> sorted (DimensionKeys g) \<and> distinct (DimensionKeys g)
           \<and> set (DimensionKeys g) = set (keys_under q evs)"
    if h: "data_at q (tree st) = Some g0" "DimensionKeys g0 = []"
  proof -
    obtain g where g: "data_at q (tree (addDimensionKeys_all evs st)) = Some g"
        "DimensionKeys g = sorted_list_of_set (set (DimensionKeys g0) \<union> set (keys_under q evs))"
      using addDimensionKeys_all_keys[OF h(1), of evs] h(2) by auto
    then show ?thesis
      using h(2) by (auto simp: sort_distinct_set)
  qed
  from a b c show ?thesis by blast
qed

text \<open>
  The scenario of the specification: under the benchmark \<open>[0]\<close> one run contributes
  \<open>region\<close> and another \<open>account_id\<close>; the root ends with \<open>account_id, region\<close>.
\<close>

theorem addDimensionKeys_propagates_raw_keys_witness:
  "data_at [] (tree example_state) = Some (data (tree example_state))
   \<and> DimensionKeys (data (tree example_state)) = []
   \<and> keys_under [] [([0], [''region'']), ([0], [''account_id''])] = [''region'', ''account_id'']
   \<and> (\<exists>g. data_at []
              (tree (addDimensionKeys_all [([0], [''region'']), ([0], [''account_id''])]
                 example_state)) = Some g
          \<and> DimensionKeys g = [''account_id'', ''region''])"
proof -
  have h: "data_at [] (tree example_state) = Some (data (tree example_state))"
    "DimensionKeys (data (tree example_state)) = []"
    by (simp_all add: data_at_def example_state_def NewRootResultGroup_def append_group_def)
  have k: "keys_under [] [([0], [''region'']), ([0], [''account_id''])]
             = [''region'', ''account_id'']"
    by (simp add: keys_under_def)
  have s: "sort_Strings (StringSliceDistinct [''region'', ''account_id''])
             = [''account_id'', ''region'']"
    by (simp add: sort_Strings_def StringSliceDistinct_def less_eq_char_def less_char_def)
  show ?thesis
    using addDimensionKeys_propagates_raw_keys[where q = "[]" and st = example_state
        and ?g0.0 = "data (tree example_state)"
        and evs = "[([0], [''region'']), ([0], [''account_id''])]"
        and p = "[]" and i = 0 and r = "[]" and keys = "[]"]
      h k s
    by auto
qed

section \<open>The status summary of a group\<close>


text \<open>
  The sum of a list of status summaries as the program adds them (each addition wraps),
  the status of a group, and the invariant in that arithmetic: the status of a group is
  the sum of the summaries of its direct control runs plus the sum of the statuses of
  its child groups, and the same holds in every child group.
\<close>

definition sum_summaries :: "StatusSummary list \<Rightarrow> StatusSummary" where
  "sum_summaries xs = foldr add_summary xs zero_summary"



text \<open>
  The same with the field-wise sum of the integers themselves, which is what the words
  "field-wise sum" say: \<open>plus_summary\<close> adds without wrapping, \<open>exact_sum\<close> sums a
  list so, and \<open>summaries_add_up_exactly\<close> is the invariant with these sums.
  \<open>wrap_summary\<close> brings each counter back into the int64 range, and
  \<open>sums_in_range\<close> says that in every group the exact sum of the runs and the child
  groups is within that range.
\<close>

definition plus_summary :: "StatusSummary \<Rightarrow> StatusSummary \<Rightarrow> StatusSummary" where
  "plus_summary a b =
     \<lparr>Alarm = Alarm a + Alarm b, Ok = Ok a + Ok b, Info = Info a + Info b,
      Skip = Skip a + Skip b, Error = Error a + Error b\<rparr>"

definition exact_sum :: "StatusSummary list \<Rightarrow> StatusSummary" where
  "exact_sum xs = foldr plus_summary xs zero_summary"













lemma add_summary_zero_zero [simp]: "add_summary zero_summary zero_summary = zero_summary"
  by (simp add: add_summary_def zero_summary_def wrap64_0_1)

lemma sum_summaries_simps [simp]:
  "sum_summaries [] = zero_summary"
  "sum_summaries (x # xs) = add_summary x (sum_summaries xs)"
  by (simp_all add: sum_summaries_def)





























subsection \<open>The program's sum and the exact sum\<close>

lemma exact_sum_simps [simp]:
  "exact_sum [] = zero_summary"
  "exact_sum (x # xs) = plus_summary x (exact_sum xs)"
  by (simp_all add: exact_sum_def)











section \<open>Executing a group\<close>

text \<open>
  \<^verbatim>\<open>ResultGroup.execute\<close> reads three things that are outside the program: the context
  (\<^verbatim>\<open>utils.IsContextCancelled(ctx)\<close> and \<^verbatim>\<open>ctx.Err()\<close>), the dry-run flag
  (\<^verbatim>\<open>viper.GetBool(constants.ArgDryRun)\<close>) and the outcome of
  \<^verbatim>\<open>parallelismLock.Acquire(ctx, 1)\<close>, which is nil or an error. They can change from one
  run to the next, so the environment gives an \<open>observation\<close> for each iteration of
  the loop over the runs, counted by \<open>tick\<close>; \<open>Acquire\<close> is what the call returns if
  the loop reaches it. The methods of \<^verbatim>\<open>ControlRun\<close> are not among the source files:
  the calls \<^verbatim>\<open>controlRun.setError(ctx, err)\<close>, \<^verbatim>\<open>controlRun.skip(ctx)\<close> and the start of
  the goroutine for a run are recorded, in order, with the address of the group and the
  index of the run. \<open>slots\<close> counts the slots of the limiter that are held.
\<close>

record observation =
  IsContextCancelled :: bool
  ctx_Err :: string
  ArgDryRun :: bool
  Acquire :: "string option"

datatype call =
    SetError addr nat string
  | SkipRun addr nat
  | Go addr nat

record sched_state =
  tick :: nat
  slots :: nat
  calls :: "call list"

text \<open>One iteration of the loop over \<^verbatim>\<open>r.ControlRuns\<close>, for the run of index \<open>k\<close>.\<close>

definition execute_run ::
  "(nat \<Rightarrow> observation) \<Rightarrow> addr \<Rightarrow> nat \<Rightarrow> sched_state \<Rightarrow> sched_state" where
  "execute_run env r k st =
     (let ob = env (tick st);
          st = st\<lparr>tick := tick st + 1\<rparr>
      in if IsContextCancelled ob then st\<lparr>calls := calls st @ [SetError r k (ctx_Err ob)]\<rparr>
         else if ArgDryRun ob then st\<lparr>calls := calls st @ [SkipRun r k]\<rparr>
         else (case Acquire ob of
                 Some err \<Rightarrow> st\<lparr>calls := calls st @ [SetError r k err]\<rparr>
               | None \<Rightarrow> st\<lparr>slots := slots st + 1, calls := calls st @ [Go r k]\<rparr>))"

text \<open>
  \<^verbatim>\<open>execute\<close>: the loop over the direct runs, then the child groups in order, each with
  its own address.
\<close>

fun execute :: "(nat \<Rightarrow> observation) \<Rightarrow> addr \<Rightarrow> ResultGroup \<Rightarrow> sched_state \<Rightarrow> sched_state"
  and execute_groups ::
    "(nat \<Rightarrow> observation) \<Rightarrow> addr \<Rightarrow> nat \<Rightarrow> ResultGroup list \<Rightarrow> sched_state \<Rightarrow> sched_state" where
  "execute env r (ResultGroup d gs) st =
     execute_groups env r 0 gs (fold (execute_run env r) [0..<length (ControlRuns d)] st)"
| "execute_groups env r i [] st = st"
| "execute_groups env r i (child # rest) st =
     execute_groups env r (Suc i) rest (execute env (r @ [i]) child st)"

text \<open>
  \<^verbatim>\<open>parallelismLock.Release(1)\<close> of \<^verbatim>\<open>golang.org/x/sync/semaphore\<close>: it panics when more
  is released than is held. The first component of the result is the panic, if any.
\<close>

definition Release :: "sched_state \<Rightarrow> string option \<times> sched_state" where
  "Release st =
     (if slots st < 1 then (Some ''semaphore: released more than held'', st)
      else (None, st\<lparr>slots := slots st - 1\<rparr>))"

text \<open>
  The goroutine that \<^verbatim>\<open>execute\<close> starts for a run. \<open>outcome\<close> is how
  \<^verbatim>\<open>run.execute(c, client)\<close> ends: \<open>None\<close> when it returns, \<open>Some v\<close> when it
  panics with the (non-nil) value \<open>v\<close>. The deferred function runs in both cases: it
  calls \<^verbatim>\<open>recover()\<close>, which stops the panic, calls \<^verbatim>\<open>run.setError\<close> with
  \<^verbatim>\<open>helpers.ToError\<close> of the value when there was one, and then releases the slot. The
  first component of the result is the panic that leaves the goroutine, if any.
\<close>

definition dispatched_task ::
  "(string \<Rightarrow> string) \<Rightarrow> addr \<Rightarrow> nat \<Rightarrow> string option \<Rightarrow> sched_state
     \<Rightarrow> string option \<times> sched_state" where
  "dispatched_task ToError r k outcome st =
     (let st = (case outcome of
                  Some v \<Rightarrow> st\<lparr>calls := calls st @ [SetError r k (ToError v)]\<rparr>
                | None \<Rightarrow> st)
      in Release st)"

text \<open>The run that a recorded call is made for.\<close>

definition call_run :: "call \<Rightarrow> addr \<times> nat" where
  "call_run c = (case c of SetError r k e \<Rightarrow> (r, k) | SkipRun r k \<Rightarrow> (r, k) | Go r k \<Rightarrow> (r, k))"

text \<open>
  An environment for the examples: the first iteration finds a free slot, the second the
  dry-run flag, the third fails to acquire a slot, and from the fourth on the context is
  cancelled.
\<close>

definition example_env :: "nat \<Rightarrow> observation" where
  "example_env t =
     (if t = 0 then \<lparr>IsContextCancelled = False, ctx_Err = [], ArgDryRun = False, Acquire = None\<rparr>
      else if t = 1 then \<lparr>IsContextCancelled = False, ctx_Err = [], ArgDryRun = True, Acquire = None\<rparr>
      else if t = 2 then \<lparr>IsContextCancelled = False, ctx_Err = [], ArgDryRun = False,
                           Acquire = Some ''context deadline exceeded''\<rparr>
      else \<lparr>IsContextCancelled = True, ctx_Err = ''context canceled'', ArgDryRun = False,
             Acquire = None\<rparr>)"

lemma execute_run_calls:
  "\<exists>c. calls (execute_run env r k st) = calls st @ [c] \<and> call_run c = (r, k)"
  by (auto simp: execute_run_def Let_def call_run_def split: option.splits)

lemma execute_run_tick: "tick (execute_run env r k st) = tick st + 1"
  by (auto simp: execute_run_def Let_def split: option.splits)

lemma execute_loop:
  "tick (fold (execute_run env r) ks st) = tick st + length ks
   \<and> (\<exists>cs. calls (fold (execute_run env r) ks st) = calls st @ cs
          \<and> map call_run cs = map (Pair r) ks)"
proof (induction ks arbitrary: st)
  case Nil
  show ?case by simp
next
  case (Cons k ks)
  obtain c where c: "calls (execute_run env r k st) = calls st @ [c]" "call_run c = (r, k)"
    using execute_run_calls by blast
  obtain cs where cs: "calls (fold (execute_run env r) ks (execute_run env r k st))
        = calls (execute_run env r k st) @ cs" "map call_run cs = map (Pair r) ks"
    using Cons.IH[of "execute_run env r k st"] by blast
  have "calls (fold (execute_run env r) (k # ks) st) = calls st @ (c # cs)
          \<and> map call_run (c # cs) = map (Pair r) (k # ks)"
    using c cs by simp
  then show ?case
    using Cons.IH[of "execute_run env r k st"] by (simp add: execute_run_tick)
qed

lemma execute_appends:
  "\<exists>cs. calls (execute env r g st) = calls st @ cs"
  "\<exists>cs. calls (execute_groups env r i gs st) = calls st @ cs"
proof (induction env r g st and env r i gs st rule: execute_execute_groups.induct)
  case (1 env r d gs st)
  obtain cs where a: "calls (fold (execute_run env r) [0..<length (ControlRuns d)] st) = calls st @ cs"
    using execute_loop[of env r "[0..<length (ControlRuns d)]" st] by blast
  obtain cs' where "calls (execute env r (ResultGroup d gs) st)
      = calls (fold (execute_run env r) [0..<length (ControlRuns d)] st) @ cs'"
    using 1 by auto
  then have "calls (execute env r (ResultGroup d gs) st) = calls st @ (cs @ cs')"
    using a by simp
  then show ?case by blast
next
  case (2 env r i st)
  show ?case by simp
next
  case (3 env r i child rest st)
  obtain cs where a: "calls (execute env (r @ [i]) child st) = calls st @ cs"
    using 3(1) by blast
  obtain cs' where "calls (execute_groups env r i (child # rest) st)
      = calls (execute env (r @ [i]) child st) @ cs'"
    using 3(2) by auto
  then have "calls (execute_groups env r i (child # rest) st) = calls st @ (cs @ cs')"
    using a by simp
  then show ?case by blast
qed

text \<open>
  The claim about the runs in its own words: what happens to a run is decided from the
  observation in this order, and a slot is taken only in the last case.
\<close>

definition fate :: "observation \<Rightarrow> addr \<Rightarrow> nat \<Rightarrow> call" where
  "fate ob r k =
     (if IsContextCancelled ob then SetError r k (ctx_Err ob)
      else if ArgDryRun ob then SkipRun r k
      else (case Acquire ob of Some err \<Rightarrow> SetError r k err | None \<Rightarrow> Go r k))"

definition takes_slot :: "observation \<Rightarrow> bool" where
  "takes_slot ob = (\<not> IsContextCancelled ob \<and> \<not> ArgDryRun ob \<and> Acquire ob = None)"

lemma execute_run_fate:
  "execute_run env r k st
     = st\<lparr>tick := tick st + 1,
          slots := slots st + (if takes_slot (env (tick st)) then 1 else 0),
          calls := calls st @ [fate (env (tick st)) r k]\<rparr>"
  by (auto simp: execute_run_def fate_def takes_slot_def Let_def split: option.splits)

lemma execute_loop_fates:
  "fold (execute_run env r) [m..<m + n] st
     = st\<lparr>tick := tick st + n,
          slots := slots st + length (filter (\<lambda>j. takes_slot (env (tick st + j))) [0..<n]),
          calls := calls st @ map (\<lambda>j. fate (env (tick st + j)) r (m + j)) [0..<n]\<rparr>"
proof (induction n arbitrary: st)
  case 0
  show ?case by simp
next
  case (Suc n)
  have h: "fold (execute_run env r) [m..<m + Suc n] st
      = execute_run env r (m + n) (fold (execute_run env r) [m..<m + n] st)"
    by simp
  show ?case
    unfolding h Suc by (simp add: execute_run_fate)
qed


lemma execute_unfold:
  "execute env r g st
     = execute_groups env r 0 (Groups g)
         (st\<lparr>tick := tick st + length (ControlRuns (data g)),
             slots := slots st
               + length (filter (\<lambda>k. takes_slot (env (tick st + k)))
                   [0..<length (ControlRuns (data g))]),
             calls := calls st
               @ map (\<lambda>k. fate (env (tick st + k)) r k) [0..<length (ControlRuns (data g))]\<rparr>)"
  using execute_loop_fates[of env r 0 "length (ControlRuns (data g))" st]
  by (cases g) simp

text \<open>
  C5. \<^verbatim>\<open>execute\<close> on a group \<open>g\<close> at address \<open>r\<close> first goes through the direct runs of
  \<open>g\<close> in order, one observation each, and then executes the child groups. For the run
  of index \<open>k\<close> it makes exactly one call, decided in this order. If the context is
  cancelled, \<^verbatim>\<open>setError\<close> is called with \<^verbatim>\<open>ctx.Err()\<close> and no slot is taken. Otherwise, if
  the dry-run flag is set, \<^verbatim>\<open>skip\<close> is called, no goroutine is started and no slot is
  taken. Otherwise a slot is asked for: if that fails, \<^verbatim>\<open>setError\<close> is called with the
  error of the acquisition and no slot is held; if it succeeds the slot is held and the
  goroutine for the run is started. In every case the loop goes on to the next run, and
  after the loop the slots held have grown by the number of runs that were dispatched.
\<close>

theorem execute_decides_each_run_in_order:
  "execute env r g st
     = execute_groups env r 0 (Groups g)
         (st\<lparr>tick := tick st + length (ControlRuns (data g)),
             slots := slots st
               + length (filter (\<lambda>k. takes_slot (env (tick st + k)))
                   [0..<length (ControlRuns (data g))]),
             calls := calls st
               @ map (\<lambda>k. fate (env (tick st + k)) r k) [0..<length (ControlRuns (data g))]\<rparr>)
   \<and> (\<exists>rest. calls (execute env r g st)
          = calls st @ map (\<lambda>k. fate (env (tick st + k)) r k) [0..<length (ControlRuns (data g))]
              @ rest)
   \<and> (k < length (ControlRuns (data g)) \<longrightarrow>
        (IsContextCancelled (env (tick st + k)) \<longrightarrow>
           calls (execute env r g st) ! (length (calls st) + k)
             = SetError r k (ctx_Err (env (tick st + k)))
           \<and> \<not> takes_slot (env (tick st + k)))
        \<and> (\<not> IsContextCancelled (env (tick st + k)) \<and> ArgDryRun (env (tick st + k)) \<longrightarrow>
           calls (execute env r g st) ! (length (calls st) + k) = SkipRun r k
           \<and> \<not> takes_slot (env (tick st + k)))
        \<and> (\<not> IsContextCancelled (env (tick st + k)) \<and> \<not> ArgDryRun (env (tick st + k))
             \<and> Acquire (env (tick st + k)) = Some err \<longrightarrow>
           calls (execute env r g st) ! (length (calls st) + k) = SetError r k err
           \<and> \<not> takes_slot (env (tick st + k)))
        \<and> (\<not> IsContextCancelled (env (tick st + k)) \<and> \<not> ArgDryRun (env (tick st + k))
             \<and> Acquire (env (tick st + k)) = None \<longrightarrow>
           calls (execute env r g st) ! (length (calls st) + k) = Go r k
           \<and> takes_slot (env (tick st + k))))"
proof -
  let ?n = "length (ControlRuns (data g))"
  let ?fs = "map (\<lambda>k. fate (env (tick st + k)) r k) [0..<?n]"
  let ?st1 = "st\<lparr>tick := tick st + ?n,
             slots := slots st + length (filter (\<lambda>k. takes_slot (env (tick st + k))) [0..<?n]),
             calls := calls st @ ?fs\<rparr>"
  have u: "execute env r g st = execute_groups env r 0 (Groups g) ?st1"
    by (rule execute_unfold)
  obtain rest where "calls (execute_groups env r 0 (Groups g) ?st1) = calls ?st1 @ rest"
    using execute_appends(2)[of env r 0 "Groups g" ?st1] by blast
  then have c: "calls (execute env r g st) = calls st @ ?fs @ rest"
    using u by simp
  have nth: "calls (execute env r g st) ! (length (calls st) + k) = fate (env (tick st + k)) r k"
    if "k < ?n"
    using that by (simp add: c nth_append)
  from u c nth show ?thesis
    by (auto simp: fate_def takes_slot_def)
qed

text \<open>
  The benchmark \<open>[0]\<close> of the worked tree has two runs. Executed from the first
  observation on, the first run is dispatched and the second skipped; executed from the
  third on, the first run fails to acquire a slot and the second finds the context
  cancelled.
\<close>

theorem execute_decides_each_run_in_order_witness:
  "length (ControlRuns (data (Groups (tree example_state) ! 0))) = 2
   \<and> Acquire (example_env 0) = None \<and> ArgDryRun (example_env 1)
   \<and> Acquire (example_env 2) = Some ''context deadline exceeded''
   \<and> IsContextCancelled (example_env 3)
   \<and> execute example_env [0] (Groups (tree example_state) ! 0) \<lparr>tick = 0, slots = 0, calls = []\<rparr>
       = \<lparr>tick = 2, slots = 1, calls = [Go [0] 0, SkipRun [0] 1]\<rparr>
   \<and> execute example_env [0] (Groups (tree example_state) ! 0) \<lparr>tick = 2, slots = 1, calls = []\<rparr>
       = \<lparr>tick = 4, slots = 1,
          calls = [SetError [0] 0 ''context deadline exceeded'',
                   SetError [0] 1 ''context canceled'']\<rparr>"
proof -
  have g: "length (ControlRuns (data (Groups (tree example_state) ! 0))) = 2"
    "Groups (Groups (tree example_state) ! 0) = []"
    by (simp_all add: example_state_def NewRootResultGroup_def AddControl_def append_group_def)
  have u: "[0..<2] = [0, Suc 0]"
    by (simp add: upt_rec)
  show ?thesis
    using
      execute_decides_each_run_in_order[of example_env "[0]" "Groups (tree example_state) ! 0"
        "\<lparr>tick = 0, slots = 0, calls = []\<rparr>" 0]
      execute_decides_each_run_in_order[of example_env "[0]" "Groups (tree example_state) ! 0"
        "\<lparr>tick = 0, slots = 0, calls = []\<rparr>" 1]
      execute_decides_each_run_in_order[of example_env "[0]" "Groups (tree example_state) ! 0"
        "\<lparr>tick = 2, slots = 1, calls = []\<rparr>" 0 "''context deadline exceeded''"]
      execute_decides_each_run_in_order[of example_env "[0]" "Groups (tree example_state) ! 0"
        "\<lparr>tick = 2, slots = 1, calls = []\<rparr>" 1]
    by (simp add: g u example_env_def fate_def takes_slot_def)
qed

text \<open>
  C6. The goroutine of a dispatched run holds the slot that was acquired for it. Whether
  \<^verbatim>\<open>run.execute\<close> returns or panics, the goroutine ends without a panic, with that slot
  released once (one slot fewer is held), and a panic has become the error of the run
  through \<^verbatim>\<open>setError\<close>. So a successful acquisition followed by the goroutine leaves
  the number of slots held as it was before the acquisition.
\<close>

theorem dispatched_task_releases_slot:
  "(1 \<le> slots st \<longrightarrow>
      fst (dispatched_task ToError r k outcome st) = None
      \<and> slots (snd (dispatched_task ToError r k outcome st)) = slots st - 1
      \<and> calls (snd (dispatched_task ToError r k outcome st))
          = calls st @ (case outcome of Some v \<Rightarrow> [SetError r k (ToError v)] | None \<Rightarrow> []))
   \<and> (\<not> IsContextCancelled (env (tick st)) \<and> \<not> ArgDryRun (env (tick st))
        \<and> Acquire (env (tick st)) = None \<longrightarrow>
      fst (dispatched_task ToError r k outcome (execute_run env r k st)) = None
      \<and> slots (snd (dispatched_task ToError r k outcome (execute_run env r k st))) = slots st)"
  by (auto simp: dispatched_task_def Release_def execute_run_def Let_def split: option.splits)

text \<open>
  A run that panics with an index error and a run that returns, each holding one slot;
  and the acquisition and the goroutine together.
\<close>

theorem dispatched_task_releases_slot_witness:
  "1 \<le> slots \<lparr>tick = 1, slots = 1, calls = [Go [0] 0]\<rparr>
   \<and> dispatched_task (\<lambda>v. v) [0] 0 (Some ''runtime error: index out of range'')
        \<lparr>tick = 1, slots = 1, calls = [Go [0] 0]\<rparr>
      = (None, \<lparr>tick = 1, slots = 0,
                 calls = [Go [0] 0, SetError [0] 0 ''runtime error: index out of range'']\<rparr>)
   \<and> dispatched_task (\<lambda>v. v) [0] 0 None \<lparr>tick = 1, slots = 1, calls = [Go [0] 0]\<rparr>
      = (None, \<lparr>tick = 1, slots = 0, calls = [Go [0] 0]\<rparr>)
   \<and> Acquire (example_env 0) = None
   \<and> slots (snd (dispatched_task (\<lambda>v. v) [0] 0 (Some ''runtime error: index out of range'')
        (execute_run example_env [0] 0 \<lparr>tick = 0, slots = 0, calls = []\<rparr>))) = 0"
  using
    dispatched_task_releases_slot[of "\<lparr>tick = 1, slots = 1, calls = [Go [0] 0]\<rparr>" "\<lambda>v. v" "[0]" 0
      "Some ''runtime error: index out of range''"]
    dispatched_task_releases_slot[of "\<lparr>tick = 1, slots = 1, calls = [Go [0] 0]\<rparr>" "\<lambda>v. v" "[0]" 0 None]
    dispatched_task_releases_slot[of "\<lparr>tick = 0, slots = 0, calls = []\<rparr>" "\<lambda>v. v" "[0]" 0
      "Some ''runtime error: index out of range''" example_env]
  by (simp add: example_env_def dispatched_task_def Release_def)

end
